theory Spec2Isabelle
  imports Main "HOL-Library.AList"
begin

section \<open>Documents: Python values as they come out of the document store\<close>

text \<open>
  The three documents handled by \<^verbatim>\<open>TieredInterviewAgent\<close> (src/app.py) are plain Python
  dictionaries with no schema. A value is \<^verbatim>\<open>None\<close>, a bool, an int, a str, a list or a dict;
  the other values the store can hold (floats, bytes, timestamps, references) are left out.
  A dict is an association list in insertion order; \<^verbatim>\<open>d[k] = v\<close> is \<open>AList.update\<close>
  (replace in place, or append), \<^verbatim>\<open>k in d\<close> is membership in the key list and
  \<^verbatim>\<open>d.get(k, default)\<close> is \<open>dict_get_or\<close>.
\<close>

datatype json =
    JNull
  | JBool bool
  | JInt int
  | JStr string
  | JList "json list"
  | JDict "(string \<times> json) list"

type_synonym dict = "(string \<times> json) list"

datatype error = AttributeError | TypeError | KeyError | ValueError | IndexError | StoreError

datatype phase = General | Category

text \<open>\<^verbatim>\<open>d.get(k)\<close>: the value, or \<^verbatim>\<open>None\<close>.\<close>

definition dict_get :: "dict \<Rightarrow> string \<Rightarrow> json" where
  "dict_get d k = (case map_of d k of None \<Rightarrow> JNull | Some v \<Rightarrow> v)"

text \<open>\<^verbatim>\<open>d.get(k, default)\<close>.\<close>

definition dict_get_or :: "dict \<Rightarrow> string \<Rightarrow> json \<Rightarrow> json" where
  "dict_get_or d k dflt = (case map_of d k of None \<Rightarrow> dflt | Some v \<Rightarrow> v)"

text \<open>\<^verbatim>\<open>k in d\<close>.\<close>

definition has_key :: "dict \<Rightarrow> string \<Rightarrow> bool" where
  "has_key d k = (k \<in> set (map fst d))"

text \<open>\<^verbatim>\<open>isinstance(v, dict)\<close>.\<close>

fun is_dict :: "json \<Rightarrow> bool" where
  "is_dict (JDict d) = True"
| "is_dict v = False"

text \<open>
  Python's \<^verbatim>\<open>==\<close> on these values. \<^verbatim>\<open>True == 1\<close> and \<^verbatim>\<open>False == 0\<close> hold; two
  dicts are equal when they have the same number of entries and every key of the left one
  is a key of the right one with an equal value, whatever the insertion order.
\<close>

function (sequential) py_eq :: "json \<Rightarrow> json \<Rightarrow> bool" where
  "py_eq JNull JNull = True"
| "py_eq (JBool a) (JBool b) = (a = b)"
| "py_eq (JBool a) (JInt n) = (n = (if a then 1 else 0))"
| "py_eq (JInt n) (JBool a) = (n = (if a then 1 else 0))"
| "py_eq (JInt m) (JInt n) = (m = n)"
| "py_eq (JStr s) (JStr t) = (s = t)"
| "py_eq (JList xs) (JList ys) = list_all2 py_eq xs ys"
| "py_eq (JDict d) (JDict e) =
     (length d = length e \<and>
      (\<forall>k \<in> set (map fst d).
         case map_of d k of
           None \<Rightarrow> False
         | Some v \<Rightarrow> (case map_of e k of None \<Rightarrow> False | Some w \<Rightarrow> py_eq v w)))"
| "py_eq _ _ = False"
  by pat_completeness auto
termination
proof (relation "measure (\<lambda>(a, b). size a)", goal_cases)
  case 1
  show ?case by simp
next
  case (2 xs ys z yb)
  have "z \<in> set xs \<Longrightarrow> size z < Suc (size_list size xs)"
    by (induction xs) auto
  with 2 show ?case by simp
next
  case (3 d e k v w)
  have "(k, v) \<in> set d" using 3 by (simp add: map_of_SomeD)
  then have "size v < Suc (size_list (size_prod (\<lambda>x. 0) size) d)"
    by (induction d) auto
  then show ?case by simp
qed

text \<open>Truth value of a Python object (\<^verbatim>\<open>if x:\<close>).\<close>

fun truthy :: "json \<Rightarrow> bool" where
  "truthy JNull = False"
| "truthy (JBool b) = b"
| "truthy (JInt n) = (n \<noteq> 0)"
| "truthy (JStr s) = (s \<noteq> [])"
| "truthy (JList xs) = (xs \<noteq> [])"
| "truthy (JDict d) = (d \<noteq> [])"

text \<open>
  \<^verbatim>\<open>dataset[tier_key]['status'] = st\<close>: \<^verbatim>\<open>KeyError\<close> when the tier is absent,
  \<^verbatim>\<open>TypeError\<close> when the tier is not a dict (no item assignment with a str key).
\<close>

definition set_tier_status :: "string \<Rightarrow> string \<Rightarrow> dict \<Rightarrow> error + dict" where
  "set_tier_status k st dataset =
     (case map_of dataset k of
        None \<Rightarrow> Inl KeyError
      | Some (JDict tier) \<Rightarrow>
          Inr (AList.update k (JDict (AList.update ''status'' (JStr st) tier)) dataset)
      | Some _ \<Rightarrow> Inl TypeError)"

text \<open>\<^verbatim>\<open>dataset.get(tier_key, {}).get('status', '')\<close>, with \<^verbatim>\<open>AttributeError\<close> on a tier
  that is not a dict.\<close>

definition tier_status :: "dict \<Rightarrow> string \<Rightarrow> error + json" where
  "tier_status dataset k =
     (case dict_get_or dataset k (JDict []) of
        JDict tier \<Rightarrow> Inr (dict_get_or tier ''status'' (JStr ''''))
      | _ \<Rightarrow> Inl AttributeError)"

section \<open>The engine state\<close>

record agent =
  current_tier_idx :: nat
  current_phase :: phase
  current_q_idx :: nat
  tier_keys :: "string list"
  general_questions :: dict
  category_questions :: dict
  profile_structure :: dict

text \<open>What \<^verbatim>\<open>get_current_question\<close> returns when there is a question.\<close>

record cur_question =
  cq_question :: json
  cq_field :: json
  cq_phase :: phase
  cq_tier :: string

section \<open>Loading and resumption\<close>

text \<open>The outcome of one \<^verbatim>\<open>db.collection(..).document(..).get()\<close>: the call raised, the
  document does not exist, or it exists with the given content.\<close>

datatype fetched = Fetch_failed | Doc_absent | Doc_found dict

fun doc_or_empty :: "fetched \<Rightarrow> dict" where
  "doc_or_empty (Doc_found d) = d"
| "doc_or_empty _ = []"

text \<open>\<^verbatim>\<open>x.replace('tier', '')\<close>: every occurrence removed, scanning left to right.\<close>

function replace_tier :: "string \<Rightarrow> string" where
  "replace_tier s =
     (if s = [] then []
      else if take 4 s = ''tier'' then replace_tier (drop 4 s)
      else hd s # replace_tier (tl s))"
  by pat_completeness auto
termination
  by (relation "measure length") auto

text \<open>
  The sort keys of \<^verbatim>\<open>sorted(.., key=lambda x: int(x.replace('tier', '')))\<close>, computed for
  every element before sorting. The builtin \<^verbatim>\<open>int\<close> on a str is the parameter \<open>py_int\<close>;
  \<open>None\<close> is its \<^verbatim>\<open>ValueError\<close>.
\<close>

fun sort_keys_of :: "(string \<Rightarrow> int option) \<Rightarrow> string list \<Rightarrow> (int \<times> string) list option" where
  "sort_keys_of py_int [] = Some []"
| "sort_keys_of py_int (k # ks) =
     (case py_int (replace_tier k) of
        None \<Rightarrow> None
      | Some n \<Rightarrow> map_option (\<lambda>r. (n, k) # r) (sort_keys_of py_int ks))"

definition extract_tier_keys :: "(string \<Rightarrow> int option) \<Rightarrow> dict \<Rightarrow> error + string list" where
  "extract_tier_keys py_int gq =
     (if gq \<noteq> [] then
        (case sort_keys_of py_int (filter (\<lambda>k. take 4 k = ''tier'') (map fst gq)) of
           None \<Rightarrow> Inl ValueError
         | Some ps \<Rightarrow> Inr (map snd (sort_key fst ps)))
      else Inr [])"

text \<open>The \<^verbatim>\<open>try\<close> block of \<^verbatim>\<open>load_data\<close>: the four fields it assigns, or the exception.\<close>

definition load_try ::
  "(string \<Rightarrow> int option) \<Rightarrow> fetched \<Rightarrow> fetched \<Rightarrow> fetched \<Rightarrow> error + (dict \<times> dict \<times> dict \<times> string list)" where
  "load_try py_int gen_doc cat_doc profile_doc =
     (if gen_doc = Fetch_failed \<or> cat_doc = Fetch_failed \<or> profile_doc = Fetch_failed
      then Inl StoreError
      else (case extract_tier_keys py_int (doc_or_empty gen_doc) of
              Inl e \<Rightarrow> Inl e
            | Inr ks \<Rightarrow> Inr (doc_or_empty gen_doc, doc_or_empty cat_doc, doc_or_empty profile_doc, ks)))"

text \<open>
  The loop of \<^verbatim>\<open>pick_up_where_left_off\<close> over \<^verbatim>\<open>enumerate(self.tier_keys)\<close>, from index
  \<open>idx\<close> on the remaining keys \<open>ks\<close>.
\<close>

fun pick_up_from :: "nat \<Rightarrow> string list \<Rightarrow> agent \<Rightarrow> error + agent" where
  "pick_up_from idx [] s = Inr (s\<lparr>current_tier_idx := length (tier_keys s)\<rparr>)"
| "pick_up_from idx (tier_key # ks) s =
     (case tier_status (general_questions s) tier_key of
        Inl e \<Rightarrow> Inl e
      | Inr status \<Rightarrow>
          if py_eq status (JStr ''completed'') then pick_up_from (Suc idx) ks s
          else if \<not> py_eq status (JStr ''in_process'') then
            (case set_tier_status tier_key ''in_process'' (general_questions s) of
               Inl e \<Rightarrow> Inl e
             | Inr g \<Rightarrow> Inr (s\<lparr>current_tier_idx := idx, general_questions := g\<rparr>))
          else Inr (s\<lparr>current_tier_idx := idx\<rparr>))"

definition pick_up_where_left_off :: "agent \<Rightarrow> error + agent" where
  "pick_up_where_left_off s = pick_up_from 0 (tier_keys s) s"

text \<open>
  \<^verbatim>\<open>__init__\<close> followed by \<^verbatim>\<open>load_data\<close>. Any exception inside the \<^verbatim>\<open>try\<close> block
  empties all four fields; \<^verbatim>\<open>pick_up_where_left_off\<close> runs outside it, so its exception
  leaves the constructor and no engine exists.
\<close>

definition load_data ::
  "(string \<Rightarrow> int option) \<Rightarrow> fetched \<Rightarrow> fetched \<Rightarrow> fetched \<Rightarrow> error + agent" where
  "load_data py_int gen_doc cat_doc profile_doc =
     (case load_try py_int gen_doc cat_doc profile_doc of
        Inl e \<Rightarrow>
          pick_up_where_left_off
            \<lparr>current_tier_idx = 0, current_phase = General, current_q_idx = 0, tier_keys = [],
             general_questions = [], category_questions = [], profile_structure = []\<rparr>
      | Inr (gq, cq, ps, ks) \<Rightarrow>
          pick_up_where_left_off
            \<lparr>current_tier_idx = 0, current_phase = General, current_q_idx = 0, tier_keys = ks,
             general_questions = gq, category_questions = cq, profile_structure = ps\<rparr>)"

section \<open>Current tier, pending questions, current question\<close>

definition get_current_tier_key :: "agent \<Rightarrow> string option" where
  "get_current_tier_key s =
     (if current_tier_idx s < length (tier_keys s)
      then Some (tier_keys s ! current_tier_idx s) else None)"

text \<open>\<^verbatim>\<open>not tier_key\<close>: \<^verbatim>\<open>None\<close> or the empty string.\<close>

fun no_key :: "string option \<Rightarrow> bool" where
  "no_key None = True"
| "no_key (Some k) = (k = [])"

text \<open>\<^verbatim>\<open>isinstance(q, dict) and q.get('qest') == 'pending'\<close>.\<close>

fun is_pending :: "json \<Rightarrow> bool" where
  "is_pending (JDict q) = py_eq (dict_get q ''qest'') (JStr ''pending'')"
| "is_pending v = False"

text \<open>
  \<^verbatim>\<open>get_pending_questions(dataset, tier_key)\<close>; the first argument is
  \<^verbatim>\<open>self.general_questions\<close>, which the method compares with \<^verbatim>\<open>dataset\<close> by \<^verbatim>\<open>==\<close>.
\<close>

definition get_pending_questions :: "dict \<Rightarrow> dict \<Rightarrow> string option \<Rightarrow> error + json list" where
  "get_pending_questions gq dataset tier_key =
     (if dataset = [] \<or> no_key tier_key \<or> \<not> has_key dataset (the tier_key) then Inr []
      else
        (case dict_get_or dataset (the tier_key) (JDict []) of
           JDict tier \<Rightarrow>
             if py_eq (JDict dataset) (JDict gq) \<and>
                \<not> py_eq (dict_get_or tier ''status'' (JStr '''')) (JStr ''in_process'') \<and>
                \<not> py_eq (dict_get_or tier ''status'' (JStr '''')) (JStr '''')
             then Inr []
             else
               (case dict_get_or tier ''questions'' (JList []) of
                  JList questions \<Rightarrow> Inr (filter is_pending questions)
                | _ \<Rightarrow> Inr [])
         | _ \<Rightarrow> Inl AttributeError))"

definition phase_dataset :: "agent \<Rightarrow> dict" where
  "phase_dataset s =
     (case current_phase s of General \<Rightarrow> general_questions s | Category \<Rightarrow> category_questions s)"

definition get_current_question :: "agent \<Rightarrow> error + cur_question option" where
  "get_current_question s =
     (if no_key (get_current_tier_key s) then Inr None
      else
        (case get_pending_questions (general_questions s) (phase_dataset s) (get_current_tier_key s) of
           Inl e \<Rightarrow> Inl e
         | Inr pending \<Rightarrow>
             if pending \<noteq> [] \<and> current_q_idx s < length pending then
               (case pending ! current_q_idx s of
                  JDict question_data \<Rightarrow>
                    Inr (Some \<lparr>cq_question = dict_get_or question_data ''question'' (JStr ''''),
                               cq_field = dict_get_or question_data ''field'' (JStr ''''),
                               cq_phase = current_phase s,
                               cq_tier = the (get_current_tier_key s)\<rparr>)
                | _ \<Rightarrow> Inl AttributeError)
             else Inr None))"

section \<open>Writing an answer into the profile structure\<close>

text \<open>\<^verbatim>\<open>field_path.split('.')\<close>.\<close>

fun split_dot :: "string \<Rightarrow> string list" where
  "split_dot [] = [[]]"
| "split_dot (c # cs) =
     (if c = CHR ''.'' then [] # split_dot cs
      else (case split_dot cs of [] \<Rightarrow> [[c]] | w # ws \<Rightarrow> (c # w) # ws))"

text \<open>
  The body of the \<^verbatim>\<open>try\<close> in \<^verbatim>\<open>update_profile_structure\<close>, as a function of the node
  \<^verbatim>\<open>current\<close> that returns the node after the write. Every test or subscript on a node that
  is not a dict ends in a \<^verbatim>\<open>TypeError\<close>; a final entry that exists and is not a dict is
  left alone by both \<^verbatim>\<open>isinstance\<close> guards. A missing intermediate key is created as an
  empty dict and the walk goes on inside it.
\<close>

fun write_path :: "string list \<Rightarrow> json \<Rightarrow> json \<Rightarrow> error + json" where
  "write_path [] answer current = Inl IndexError"
| "write_path [final_key] answer current =
     (case current of
        JDict d \<Rightarrow>
          (case map_of d final_key of
             Some (JDict leaf) \<Rightarrow>
               Inr (JDict (AList.update final_key (JDict (AList.update ''value'' answer leaf)) d))
           | Some _ \<Rightarrow> Inr current
           | None \<Rightarrow> Inr (JDict (AList.update final_key (JDict [(''value'', answer)]) d)))
      | _ \<Rightarrow> Inl TypeError)"
| "write_path (key # rest) answer current =
     (case current of
        JDict d \<Rightarrow>
          (case write_path rest answer (dict_get_or d key (JDict [])) of
             Inl e \<Rightarrow> Inl e
           | Inr child \<Rightarrow> Inr (JDict (AList.update key child d)))
      | _ \<Rightarrow> Inl TypeError)"

text \<open>\<^verbatim>\<open>except (KeyError, TypeError, AttributeError)\<close>.\<close>

fun caught :: "error \<Rightarrow> bool" where
  "caught KeyError = True"
| "caught TypeError = True"
| "caught AttributeError = True"
| "caught e = False"

definition update_profile_structure :: "json \<Rightarrow> json \<Rightarrow> agent \<Rightarrow> error option \<times> agent" where
  "update_profile_structure field_path answer s =
     (case field_path of
        JStr p \<Rightarrow>
          if p = [] then (None, s)
          else
            (case write_path (split_dot p) answer (JDict (profile_structure s)) of
               Inr (JDict d) \<Rightarrow> (None, s\<lparr>profile_structure := d\<rparr>)
             | Inr _ \<Rightarrow> (None, s)
             | Inl e \<Rightarrow> if caught e then (None, s) else (Some e, s))
      | _ \<Rightarrow> (None, s))"

section \<open>Advancing\<close>

definition complete_current_tier :: "agent \<Rightarrow> error option \<times> agent" where
  "complete_current_tier s =
     (if no_key (get_current_tier_key s) then (None, s)
      else
        (let tier_key = the (get_current_tier_key s) in
         case (if has_key (general_questions s) tier_key
               then set_tier_status tier_key ''completed'' (general_questions s)
               else Inr (general_questions s)) of
           Inl e \<Rightarrow> (Some e, s)
         | Inr g \<Rightarrow>
             (case (if has_key (category_questions s) tier_key
                    then set_tier_status tier_key ''completed'' (category_questions s)
                    else Inr (category_questions s)) of
                Inl e \<Rightarrow> (Some e, s\<lparr>general_questions := g\<rparr>)
              | Inr c \<Rightarrow> (None, s\<lparr>general_questions := g, category_questions := c\<rparr>))))"

definition advance_to_next_tier :: "agent \<Rightarrow> error option \<times> agent" where
  "advance_to_next_tier s =
     (if current_tier_idx s + 1 < length (tier_keys s) then
        (let s1 = s\<lparr>current_tier_idx := current_tier_idx s + 1,
                    current_phase := General, current_q_idx := 0\<rparr> in
         if \<not> no_key (get_current_tier_key s1) \<and>
            has_key (general_questions s1) (the (get_current_tier_key s1))
         then
           (case set_tier_status (the (get_current_tier_key s1)) ''in_process'' (general_questions s1) of
              Inl e \<Rightarrow> (Some e, s1)
            | Inr g \<Rightarrow> (None, s1\<lparr>general_questions := g\<rparr>))
         else (None, s1))
      else (None, s\<lparr>current_tier_idx := length (tier_keys s)\<rparr>))"

text \<open>\<^verbatim>\<open>self.complete_current_tier(); self.advance_to_next_tier()\<close>.\<close>

definition complete_and_advance :: "agent \<Rightarrow> error option \<times> agent" where
  "complete_and_advance s =
     (case complete_current_tier s of
        (Some e, s') \<Rightarrow> (Some e, s')
      | (None, s') \<Rightarrow> advance_to_next_tier s')"

definition advance_to_next :: "agent \<Rightarrow> error option \<times> agent" where
  "advance_to_next s =
     (if no_key (get_current_tier_key s) then (None, s)
      else
        (case current_phase s of
           General \<Rightarrow>
             (case get_pending_questions (general_questions s) (general_questions s)
                     (get_current_tier_key s) of
                Inl e \<Rightarrow> (Some e, s)
              | Inr pending \<Rightarrow>
                  if pending \<noteq> [] \<and> current_q_idx s + 1 < length pending
                  then (None, s\<lparr>current_q_idx := current_q_idx s + 1\<rparr>)
                  else
                    (let s1 = s\<lparr>current_phase := Category, current_q_idx := 0\<rparr> in
                     case get_pending_questions (general_questions s1) (category_questions s1)
                            (get_current_tier_key s1) of
                       Inl e \<Rightarrow> (Some e, s1)
                     | Inr cat_pending \<Rightarrow>
                         if cat_pending = [] then complete_and_advance s1 else (None, s1)))
         | Category \<Rightarrow>
             (case get_pending_questions (general_questions s) (category_questions s)
                     (get_current_tier_key s) of
                Inl e \<Rightarrow> (Some e, s)
              | Inr pending \<Rightarrow>
                  if pending \<noteq> [] \<and> current_q_idx s + 1 < length pending
                  then (None, s\<lparr>current_q_idx := current_q_idx s + 1\<rparr>)
                  else complete_and_advance s)))"

definition is_complete :: "agent \<Rightarrow> bool" where
  "is_complete s = (current_tier_idx s \<ge> length (tier_keys s))"

section \<open>Recording an answer\<close>

text \<open>
  The loop \<^verbatim>\<open>for q in tier_questions: if q.get('question') == question_text: ..; break\<close>
  over a list: the first entry with that text gets \<^verbatim>\<open>qest = 'answered'\<close>; an entry that is
  not a dict and is reached before a match raises \<^verbatim>\<open>AttributeError\<close>.
\<close>

fun mark_answered :: "json \<Rightarrow> json list \<Rightarrow> error + json list" where
  "mark_answered question_text [] = Inr []"
| "mark_answered question_text (q # qs) =
     (case q of
        JDict d \<Rightarrow>
          if py_eq (dict_get d ''question'') question_text
          then Inr (JDict (AList.update ''qest'' (JStr ''answered'') d) # qs)
          else (case mark_answered question_text qs of
                  Inl e \<Rightarrow> Inl e
                | Inr qs' \<Rightarrow> Inr (q # qs'))
      | _ \<Rightarrow> Inl AttributeError)"

text \<open>
  \<^verbatim>\<open>tier_questions = dataset.get(tier_key, {}).get('questions', [])\<close> and the loop over it,
  returning the dataset with the marked question. Iterating a non-empty str or dict yields
  strs (no \<^verbatim>\<open>get\<close>: \<^verbatim>\<open>AttributeError\<close>); \<^verbatim>\<open>None\<close>, a bool or an int is not
  iterable (\<^verbatim>\<open>TypeError\<close>).
\<close>

definition mark_in_dataset :: "string \<Rightarrow> json \<Rightarrow> dict \<Rightarrow> error + dict" where
  "mark_in_dataset tier_key question_text dataset =
     (case map_of dataset tier_key of
        None \<Rightarrow> Inr dataset
      | Some (JDict tier) \<Rightarrow>
          (case map_of tier ''questions'' of
             None \<Rightarrow> Inr dataset
           | Some (JList qs) \<Rightarrow>
               (case mark_answered question_text qs of
                  Inl e \<Rightarrow> Inl e
                | Inr qs' \<Rightarrow>
                    Inr (AList.update tier_key
                           (JDict (AList.update ''questions'' (JList qs') tier)) dataset))
           | Some (JDict d) \<Rightarrow> if d = [] then Inr dataset else Inl AttributeError
           | Some (JStr cs) \<Rightarrow> if cs = [] then Inr dataset else Inl AttributeError
           | Some _ \<Rightarrow> Inl TypeError)
      | Some _ \<Rightarrow> Inl AttributeError)"

definition set_phase_dataset :: "dict \<Rightarrow> agent \<Rightarrow> agent" where
  "set_phase_dataset d s =
     (case current_phase s of
        General \<Rightarrow> s\<lparr>general_questions := d\<rparr>
      | Category \<Rightarrow> s\<lparr>category_questions := d\<rparr>)"

text \<open>
  \<^verbatim>\<open>submit_answer(answer)\<close>: the returned bool or the exception that leaves the method,
  and the engine as the call leaves it (mutations made before an exception stay).
\<close>

definition submit_answer :: "json \<Rightarrow> agent \<Rightarrow> (error + bool) \<times> agent" where
  "submit_answer answer s =
     (if no_key (get_current_tier_key s) then (Inr False, s)
      else
        (case get_current_question s of
           Inl e \<Rightarrow> (Inl e, s)
         | Inr None \<Rightarrow> (Inr False, s)
         | Inr (Some current_q) \<Rightarrow>
             (case get_pending_questions (general_questions s) (phase_dataset s)
                     (get_current_tier_key s) of
                Inl e \<Rightarrow> (Inl e, s)
              | Inr pending \<Rightarrow>
                  if pending \<noteq> [] \<and> current_q_idx s < length pending then
                    (case pending ! current_q_idx s of
                       JDict question_to_update \<Rightarrow>
                         (case mark_in_dataset (the (get_current_tier_key s))
                                 (dict_get_or question_to_update ''question'' (JStr ''''))
                                 (phase_dataset s) of
                            Inl e \<Rightarrow> (Inl e, s)
                          | Inr d \<Rightarrow>
                              (case (if truthy (cq_field current_q)
                                     then update_profile_structure (cq_field current_q) answer
                                            (set_phase_dataset d s)
                                     else (None, set_phase_dataset d s)) of
                                 (Some e, s1) \<Rightarrow> (Inl e, s1)
                               | (None, s1) \<Rightarrow>
                                   (case advance_to_next s1 of
                                      (Some e, s2) \<Rightarrow> (Inl e, s2)
                                    | (None, s2) \<Rightarrow> (Inr True, s2))))
                     | _ \<Rightarrow> (Inl AttributeError, s))
                  else (Inr False, s))))"

text \<open>The engine after a sequence of \<^verbatim>\<open>submit_answer\<close> calls, whatever each call returned
  or raised.\<close>

definition run_answers :: "agent \<Rightarrow> json list \<Rightarrow> agent" where
  "run_answers s answers = foldl (\<lambda>s a. snd (submit_answer a s)) s answers"

section \<open>Notions used to state the properties\<close>

text \<open>The derived position: tier index, phase, question index.\<close>

definition position :: "agent \<Rightarrow> nat \<times> phase \<times> nat" where
  "position s = (current_tier_idx s, current_phase s, current_q_idx s)"

text \<open>The full question sequence of a tier (empty when the tier or its list is missing).\<close>

definition tier_questions :: "dict \<Rightarrow> string \<Rightarrow> json list" where
  "tier_questions dataset k =
     (case map_of dataset k of
        Some (JDict t) \<Rightarrow> (case map_of t ''questions'' of Some (JList qs) \<Rightarrow> qs | _ \<Rightarrow> [])
      | _ \<Rightarrow> [])"




text \<open>The node reached from \<open>v\<close> by descending one key per segment.\<close>

fun lookup_path :: "string list \<Rightarrow> json \<Rightarrow> json option" where
  "lookup_path [] v = Some v"
| "lookup_path (k # ks) (JDict d) =
     (case map_of d k of None \<Rightarrow> None | Some c \<Rightarrow> lookup_path ks c)"
| "lookup_path (k # ks) v = None"

text \<open>Every node that already exists along the path, the last one included, is a mapping.\<close>

fun path_of_mappings :: "string list \<Rightarrow> json \<Rightarrow> bool" where
  "path_of_mappings [] v = is_dict v"
| "path_of_mappings (k # ks) (JDict d) =
     (case map_of d k of None \<Rightarrow> True | Some c \<Rightarrow> path_of_mappings ks c)"
| "path_of_mappings (k # ks) v = False"





text \<open>
  What holds of every engine between two calls: the tier keys are distinct, non-empty keys
  of the general set, the index is at most the tier count, and every tier before the
  current one is completed in the general set.
\<close>

definition engine_inv :: "agent \<Rightarrow> bool" where
  "engine_inv s =
     (distinct (tier_keys s) \<and> [] \<notin> set (tier_keys s) \<and>
      set (tier_keys s) \<subseteq> set (map fst (general_questions s)) \<and>
      current_tier_idx s \<le> length (tier_keys s) \<and>
      list_all (\<lambda>k. tier_status (general_questions s) k = Inr (JStr ''completed''))
        (take (current_tier_idx s) (tier_keys s)))"

section \<open>Concrete documents\<close>

text \<open>A reading of decimal digit strings, standing for \<^verbatim>\<open>int\<close> on the keys
  \<^verbatim>\<open>tier1\<close>, \<^verbatim>\<open>tier2\<close>, .. of the examples.\<close>

definition decimal_int :: "string \<Rightarrow> int option" where
  "decimal_int s =
     (if s \<noteq> [] \<and> list_all (\<lambda>c. c \<in> set ''0123456789'') s
      then Some (foldl (\<lambda>n c. 10 * n + (int (of_char c) - 48)) 0 s) else None)"

definition mk_question :: "string \<Rightarrow> string \<Rightarrow> string \<Rightarrow> json" where
  "mk_question text field qest =
     JDict [(''question'', JStr text), (''field'', JStr field), (''qest'', JStr qest)]"

definition mk_tier :: "string \<Rightarrow> json list \<Rightarrow> json" where
  "mk_tier status qs = JDict [(''status'', JStr status), (''questions'', JList qs)]"

text \<open>The example scenario of the specification.\<close>

definition scenario_general :: dict where
  "scenario_general =
     [(''tier1'', mk_tier ''in_process''
         [mk_question ''What is your name?'' ''name'' ''pending'',
          mk_question ''How old are you?'' ''age'' ''pending'']),
      (''tier2'', mk_tier [] [mk_question ''What is your hobby?'' ''hobby'' ''pending''])]"

definition scenario_category :: dict where
  "scenario_category = [(''tier2'', mk_tier [] [])]"

definition scenario_loaded :: agent where
  "scenario_loaded =
     \<lparr>current_tier_idx = 0, current_phase = General, current_q_idx = 0,
      tier_keys = [''tier1'', ''tier2''],
      general_questions = scenario_general, category_questions = scenario_category,
      profile_structure = []\<rparr>"

definition scenario_after_alice :: agent where
  "scenario_after_alice = snd (submit_answer (JStr ''Alice'') scenario_loaded)"





text \<open>An engine whose only tier is completed: there is no current tier.\<close>

definition finished_engine :: agent where
  "finished_engine =
     \<lparr>current_tier_idx = 1, current_phase = Category, current_q_idx = 0,
      tier_keys = [''tier1''],
      general_questions =
        [(''tier1'', mk_tier ''completed'' [mk_question ''What is your name?'' ''name'' ''answered''])],
      category_questions = [], profile_structure = [(''name'', JDict [(''value'', JStr ''Alice'')])]\<rparr>"







section \<open>Basic facts\<close>


lemma py_eq_JStr [simp]:
  "py_eq v (JStr s) = (v = JStr s)" "py_eq (JStr s) v = (v = JStr s)"
  by (cases v; auto)+


lemma set_tier_status_keys: "set_tier_status k st d = Inr d' \<Longrightarrow> map fst d' = map fst d"
  by (auto simp: set_tier_status_def AList.update_keys map_of_eq_None_iff[symmetric]
      split: option.splits json.splits)

lemma tier_status_set_same:
  "set_tier_status k st d = Inr d' \<Longrightarrow> tier_status d' k = Inr (JStr st)"
  by (auto simp: set_tier_status_def tier_status_def dict_get_or_def update_conv'
      split: option.splits json.splits)

lemma tier_status_set_other:
  "set_tier_status k st d = Inr d' \<Longrightarrow> k' \<noteq> k \<Longrightarrow> tier_status d' k' = tier_status d k'"
  by (auto simp: set_tier_status_def tier_status_def dict_get_or_def update_conv'
      split: option.splits json.splits)

section \<open>Resumption scan\<close>

lemma pick_up_from_frame:
  "pick_up_from i ks s = Inr s' \<Longrightarrow>
     current_phase s' = current_phase s \<and> current_q_idx s' = current_q_idx s \<and>
     tier_keys s' = tier_keys s \<and> category_questions s' = category_questions s \<and>
     profile_structure s' = profile_structure s \<and>
     map fst (general_questions s') = map fst (general_questions s)"
proof (induction ks arbitrary: i)
  case Nil
  then show ?case by auto
next
  case (Cons k ks)
  then show ?case
    by (auto split: sum.splits if_splits dest: set_tier_status_keys)
qed



lemma load_data_pick_up:
  assumes "load_data py_int g c p = Inr s"
  obtains gq cq ps ks where
    "pick_up_from 0 ks \<lparr>current_tier_idx = 0, current_phase = General, current_q_idx = 0,
        tier_keys = ks, general_questions = gq, category_questions = cq,
        profile_structure = ps\<rparr> = Inr s"
    "load_try py_int g c p = Inr (gq, cq, ps, ks) \<or>
     (gq = [] \<and> cq = [] \<and> ps = [] \<and> ks = [] \<and> (\<exists>e. load_try py_int g c p = Inl e))"
proof (cases "load_try py_int g c p")
  case (Inl e)
  with assms that[of "[]" "[]" "[]" "[]"] show ?thesis
    by (auto simp: load_data_def pick_up_where_left_off_def)
next
  case (Inr r)
  obtain gq cq ps ks where r: "r = (gq, cq, ps, ks)" by (cases r) auto
  with Inr assms that[of ks gq cq ps] show ?thesis
    by (simp add: load_data_def pick_up_where_left_off_def)
qed

lemma load_try_empty:
  "load_try py_int g c p = Inr (gq, cq, ps, ks) \<Longrightarrow> gq = [] \<Longrightarrow> ks = []"
  by (auto simp: load_try_def extract_tier_keys_def split: if_splits sum.splits)


lemma scenario_load:
  "load_data decimal_int (Doc_found scenario_general) (Doc_found scenario_category) (Doc_found [])
     = Inr scenario_loaded"
  by code_simp


section \<open>Frame facts of the single operations\<close>

lemma set_tier_status_completed_mono:
  "set_tier_status k ''completed'' d = Inr d' \<Longrightarrow>
   tier_status d k' = Inr (JStr ''completed'') \<Longrightarrow>
   tier_status d' k' = Inr (JStr ''completed'')"
  by (cases "k' = k") (simp_all add: tier_status_set_same tier_status_set_other)

lemma mark_in_dataset_keys:
  "mark_in_dataset k text d = Inr d' \<Longrightarrow> map fst d' = map fst d"
  by (auto simp: mark_in_dataset_def AList.update_keys map_of_eq_None_iff[symmetric]
      split: option.splits json.splits sum.splits if_splits)

lemma mark_in_dataset_status:
  "mark_in_dataset k text d = Inr d' \<Longrightarrow> tier_status d' k' = tier_status d k'"
  by (auto simp: mark_in_dataset_def tier_status_def dict_get_or_def update_conv'
      split: option.splits json.splits sum.splits if_splits)

lemma split_dot_nonempty: "split_dot p \<noteq> []"
  by (induction p) (auto split: list.splits)

lemma write_path_error:
  "write_path ks answer v = Inl e \<Longrightarrow> ks \<noteq> [] \<Longrightarrow> e = TypeError"
  by (induction ks answer v rule: write_path.induct)
     (auto split: json.splits option.splits sum.splits)

lemma update_profile_structure_frame:
  assumes "update_profile_structure f answer s = (r, s')"
  shows "r = None \<and> current_tier_idx s' = current_tier_idx s \<and>
         current_phase s' = current_phase s \<and> current_q_idx s' = current_q_idx s \<and>
         tier_keys s' = tier_keys s \<and> general_questions s' = general_questions s \<and>
         category_questions s' = category_questions s"
proof (cases f)
  case (JStr p)
  show ?thesis
  proof (cases "write_path (split_dot p) answer (JDict (profile_structure s))")
    case (Inl e)
    then have "e = TypeError" using split_dot_nonempty by (rule write_path_error)
    with assms JStr Inl show ?thesis
      by (auto simp: update_profile_structure_def split: if_splits)
  next
    case (Inr v)
    with assms JStr show ?thesis
      by (cases v) (auto simp: update_profile_structure_def split: if_splits)
  qed
qed (use assms in \<open>auto simp: update_profile_structure_def\<close>)

section \<open>Decomposition of \<^verbatim>\<open>submit_answer\<close>\<close>

lemma get_current_question_Some:
  assumes "get_current_question s = Inr (Some cq)"
  obtains k pending q where
    "get_current_tier_key s = Some k" "k \<noteq> []"
    "get_pending_questions (general_questions s) (phase_dataset s) (Some k) = Inr pending"
    "current_q_idx s < length pending" "pending ! current_q_idx s = JDict q"
    "cq_question cq = dict_get_or q ''question'' (JStr [])"
    "cq_field cq = dict_get_or q ''field'' (JStr [])"
    "cq_phase cq = current_phase s" "cq_tier cq = k"
proof -
  from assms obtain k where k: "get_current_tier_key s = Some k" "k \<noteq> []"
    by (cases "get_current_tier_key s") (auto simp: get_current_question_def split: if_splits)
  with assms obtain pending where
    p: "get_pending_questions (general_questions s) (phase_dataset s) (Some k) = Inr pending"
    by (auto simp: get_current_question_def split: sum.splits)
  with assms k have len: "current_q_idx s < length pending"
    by (auto simp: get_current_question_def split: if_splits)
  with assms k p obtain q where q: "pending ! current_q_idx s = JDict q"
    by (cases "pending ! current_q_idx s") (auto simp: get_current_question_def split: if_splits)
  with assms k p len have
    "cq_question cq = dict_get_or q ''question'' (JStr [])"
    "cq_field cq = dict_get_or q ''field'' (JStr [])"
    "cq_phase cq = current_phase s" "cq_tier cq = k"
    by (auto simp: get_current_question_def split: if_splits)
  with k p len q that show ?thesis by blast
qed

text \<open>After the marking succeeded, \<^verbatim>\<open>submit_answer\<close> is \<^verbatim>\<open>advance_to_next\<close> on the
  engine with the marked dataset and the written profile.\<close>

lemma submit_answer_step:
  assumes "get_current_question s = Inr (Some cq)"
    and "mark_in_dataset (cq_tier cq) (cq_question cq) (phase_dataset s) = Inr d"
  shows "submit_answer answer s =
     (case advance_to_next
             (if truthy (cq_field cq)
              then snd (update_profile_structure (cq_field cq) answer (set_phase_dataset d s))
              else set_phase_dataset d s) of
        (Some e, s2) \<Rightarrow> (Inl e, s2)
      | (None, s2) \<Rightarrow> (Inr True, s2))"
proof -
  from assms(1) obtain k pending q where
    k: "get_current_tier_key s = Some k" "k \<noteq> []"
    and p: "get_pending_questions (general_questions s) (phase_dataset s) (Some k) = Inr pending"
    and len: "current_q_idx s < length pending" and q: "pending ! current_q_idx s = JDict q"
    and cq: "cq_question cq = dict_get_or q ''question'' (JStr [])" "cq_tier cq = k"
    by (rule get_current_question_Some)
  obtain r s1 where u: "update_profile_structure (cq_field cq) answer (set_phase_dataset d s)
      = (r, s1)"
    by (cases "update_profile_structure (cq_field cq) answer (set_phase_dataset d s)")
  from update_profile_structure_frame[OF u] have r: "r = None" by simp
  from len have ne: "pending \<noteq> []" by auto
  show ?thesis
    using assms k p len q ne u r cq
    by (simp add: submit_answer_def split: prod.splits)
qed

lemma submit_answer_failed_mark:
  assumes "get_current_question s = Inr (Some cq)"
    and "mark_in_dataset (cq_tier cq) (cq_question cq) (phase_dataset s) = Inl e"
  shows "submit_answer answer s = (Inl e, s)"
proof -
  from assms(1) obtain k pending q where
    k: "get_current_tier_key s = Some k" "k \<noteq> []"
    and p: "get_pending_questions (general_questions s) (phase_dataset s) (Some k) = Inr pending"
    and len: "current_q_idx s < length pending" and q: "pending ! current_q_idx s = JDict q"
    and cq: "cq_question cq = dict_get_or q ''question'' (JStr [])" "cq_tier cq = k"
    by (rule get_current_question_Some)
  from len have ne: "pending \<noteq> []" by auto
  show ?thesis
    using assms k p len q ne cq by (simp add: submit_answer_def)
qed

lemma submit_answer_no_current:
  assumes "\<And>cq. get_current_question s \<noteq> Inr (Some cq)"
  shows "snd (submit_answer answer s) = s"
  using assms
  by (cases "get_current_question s")
     (auto simp: submit_answer_def split: option.splits)

section \<open>The engine invariant\<close>

lemma engine_inv_general:
  assumes "engine_inv s" "map fst g = map fst (general_questions s)"
    "\<And>k. tier_status (general_questions s) k = Inr (JStr ''completed'') \<Longrightarrow>
          tier_status g k = Inr (JStr ''completed'')"
  shows "engine_inv (s\<lparr>general_questions := g\<rparr>)"
  using assms by (auto simp: engine_inv_def list_all_iff)

lemma engine_inv_current_key:
  "engine_inv s \<Longrightarrow> current_tier_idx s < length (tier_keys s) \<Longrightarrow>
   has_key (general_questions s) (tier_keys s ! current_tier_idx s)"
  by (auto simp: engine_inv_def has_key_def)

lemma complete_current_tier_inv:
  assumes "engine_inv s" "complete_current_tier s = (r, s')"
  shows "engine_inv s' \<and> current_tier_idx s' = current_tier_idx s \<and>
         tier_keys s' = tier_keys s \<and>
         (r = None \<longrightarrow> current_tier_idx s < length (tier_keys s) \<longrightarrow>
            tier_status (general_questions s') (tier_keys s ! current_tier_idx s)
              = Inr (JStr ''completed''))"
proof (cases "current_tier_idx s < length (tier_keys s)")
  case False
  with assms show ?thesis
    by (auto simp: complete_current_tier_def get_current_tier_key_def)
next
  case True
  define k where "k = tier_keys s ! current_tier_idx s"
  have key: "get_current_tier_key s = Some k"
    using True by (simp add: get_current_tier_key_def k_def)
  have hk: "has_key (general_questions s) k"
    using engine_inv_current_key[OF assms(1) True] by (simp add: k_def)
  have "k \<in> set (tier_keys s)" unfolding k_def using True by (rule nth_mem)
  then have nonempty: "k \<noteq> []" using assms(1) by (auto simp: engine_inv_def)
  show ?thesis
  proof (cases "set_tier_status k ''completed'' (general_questions s)")
    case (Inl e)
    with assms key hk nonempty show ?thesis
      by (auto simp: complete_current_tier_def)
  next
    case (Inr g)
    have inv_g: "engine_inv (s\<lparr>general_questions := g\<rparr>)"
      using assms(1) Inr
      by (intro engine_inv_general)
         (auto dest: set_tier_status_keys set_tier_status_completed_mono)
    have st: "tier_status g k = Inr (JStr ''completed'')"
      using Inr by (rule tier_status_set_same)
    have inv_gc: "engine_inv (s\<lparr>general_questions := g, category_questions := c\<rparr>)" for c
      using inv_g by (simp add: engine_inv_def)
    from assms(2) key hk nonempty Inr inv_g inv_gc st show ?thesis
      by (auto simp: complete_current_tier_def Let_def k_def split: sum.splits if_splits)
  qed
qed

lemma advance_to_next_tier_inv:
  assumes "engine_inv s"
    "current_tier_idx s < length (tier_keys s) \<longrightarrow>
       tier_status (general_questions s) (tier_keys s ! current_tier_idx s)
         = Inr (JStr ''completed'')"
  shows "engine_inv (snd (advance_to_next_tier s))"
proof (cases "current_tier_idx s + 1 < length (tier_keys s)")
  case False
  have "list_all (\<lambda>k. tier_status (general_questions s) k = Inr (JStr ''completed''))
          (tier_keys s)"
  proof (cases "current_tier_idx s < length (tier_keys s)")
    case True
    with False have eq: "tier_keys s = take (current_tier_idx s) (tier_keys s) @
        [tier_keys s ! current_tier_idx s]"
      by (metis Suc_eq_plus1 linorder_not_less take_Suc_conv_app_nth take_all)
    from assms True show ?thesis
      by (subst eq) (simp add: engine_inv_def)
  next
    case False
    with assms(1) show ?thesis by (simp add: engine_inv_def)
  qed
  with False assms(1) show ?thesis
    by (simp add: advance_to_next_tier_def engine_inv_def)
next
  case True
  define s1 where "s1 = s\<lparr>current_tier_idx := current_tier_idx s + 1,
                    current_phase := General, current_q_idx := 0\<rparr>"
  define k where "k = tier_keys s ! (current_tier_idx s + 1)"
  have all: "list_all (\<lambda>k. tier_status (general_questions s) k = Inr (JStr ''completed''))
        (take (current_tier_idx s + 1) (tier_keys s))"
    using assms True by (auto simp: engine_inv_def take_Suc_conv_app_nth)
  then have inv1: "engine_inv s1"
    using assms(1) True by (auto simp: engine_inv_def s1_def)
  have knot: "k \<notin> set (take (current_tier_idx s + 1) (tier_keys s))"
  proof
    assume "k \<in> set (take (current_tier_idx s + 1) (tier_keys s))"
    then obtain j where j: "j < current_tier_idx s + 1" "j < length (tier_keys s)"
        "tier_keys s ! j = k"
      by (auto simp: in_set_conv_nth)
    have "distinct (tier_keys s)" using assms(1) by (simp add: engine_inv_def)
    with j True have "j = current_tier_idx s + 1"
      by (simp add: k_def nth_eq_iff_index_eq)
    with j show False by simp
  qed
  have eq: "advance_to_next_tier s =
      (if \<not> no_key (Some k) \<and> has_key (general_questions s1) k
       then (case set_tier_status k ''in_process'' (general_questions s1) of
               Inl e \<Rightarrow> (Some e, s1)
             | Inr g \<Rightarrow> (None, s1\<lparr>general_questions := g\<rparr>))
       else (None, s1))"
    using True
    by (simp add: advance_to_next_tier_def Let_def s1_def k_def get_current_tier_key_def
        split: sum.splits)
  show ?thesis
  proof (cases "set_tier_status k ''in_process'' (general_questions s1)")
    case (Inl e)
    with inv1 show ?thesis by (simp add: eq)
  next
    case (Inr g)
    have "engine_inv (s1\<lparr>general_questions := g\<rparr>)"
      unfolding engine_inv_def
    proof (intro conjI)
      show "distinct (tier_keys (s1\<lparr>general_questions := g\<rparr>))"
        using inv1 by (simp add: engine_inv_def)
      show "[] \<notin> set (tier_keys (s1\<lparr>general_questions := g\<rparr>))"
        using inv1 by (simp add: engine_inv_def)
      show "set (tier_keys (s1\<lparr>general_questions := g\<rparr>))
            \<subseteq> set (map fst (general_questions (s1\<lparr>general_questions := g\<rparr>)))"
        using inv1 set_tier_status_keys[OF Inr] by (simp add: engine_inv_def)
      show "current_tier_idx (s1\<lparr>general_questions := g\<rparr>)
            \<le> length (tier_keys (s1\<lparr>general_questions := g\<rparr>))"
        using inv1 by (simp add: engine_inv_def)
      show "list_all (\<lambda>k. tier_status (general_questions (s1\<lparr>general_questions := g\<rparr>)) k
                = Inr (JStr ''completed''))
             (take (current_tier_idx (s1\<lparr>general_questions := g\<rparr>))
                (tier_keys (s1\<lparr>general_questions := g\<rparr>)))"
      proof -
        have same: "tier_status g k' = tier_status (general_questions s) k'" if "k' \<noteq> k" for k'
          using tier_status_set_other[OF Inr that] by (simp add: s1_def)
        have "tier_status g k' = Inr (JStr ''completed'')"
          if "k' \<in> set (take (current_tier_idx s + 1) (tier_keys s))" for k'
        proof -
          from that knot have "k' \<noteq> k" by auto
          with same that all show ?thesis by (simp add: list_all_iff)
        qed
        then show ?thesis by (simp add: list_all_iff s1_def)
      qed
    qed
    with inv1 Inr show ?thesis by (simp add: eq)
  qed
qed

lemma complete_and_advance_inv:
  assumes "engine_inv s"
  shows "engine_inv (snd (complete_and_advance s))"
proof (cases "complete_current_tier s")
  case (Pair r s')
  note c = complete_current_tier_inv[OF assms Pair]
  show ?thesis
  proof (cases r)
    case None
    with c have "engine_inv (snd (advance_to_next_tier s'))"
      by (intro advance_to_next_tier_inv) auto
    with Pair None show ?thesis by (simp add: complete_and_advance_def)
  next
    case (Some e)
    with Pair c show ?thesis by (simp add: complete_and_advance_def)
  qed
qed

lemma advance_to_next_inv:
  assumes "engine_inv s"
  shows "engine_inv (snd (advance_to_next s))"
proof -
  have a: "engine_inv (s\<lparr>current_q_idx := n\<rparr>)" for n
    using assms by (simp add: engine_inv_def)
  have b: "engine_inv (snd (complete_and_advance
             (s\<lparr>current_phase := Category, current_q_idx := 0\<rparr>)))"
    using assms by (intro complete_and_advance_inv) (simp add: engine_inv_def)
  have b': "engine_inv (s\<lparr>current_phase := Category, current_q_idx := 0\<rparr>)"
    using assms by (simp add: engine_inv_def)
  have c: "engine_inv (snd (complete_and_advance s))"
    using assms by (rule complete_and_advance_inv)
  show ?thesis
    using assms a b b' c
    by (auto simp: advance_to_next_def Let_def split: phase.splits sum.splits)
qed

lemma submit_answer_inv:
  assumes "engine_inv s"
  shows "engine_inv (snd (submit_answer answer s))"
proof (cases "\<exists>cq. get_current_question s = Inr (Some cq)")
  case False
  then have "snd (submit_answer answer s) = s"
    by (intro submit_answer_no_current) auto
  with assms show ?thesis by simp
next
  case True
  then obtain cq where cq: "get_current_question s = Inr (Some cq)" by blast
  show ?thesis
  proof (cases "mark_in_dataset (cq_tier cq) (cq_question cq) (phase_dataset s)")
    case (Inl e)
    from submit_answer_failed_mark[OF cq Inl] assms show ?thesis by simp
  next
    case (Inr d)
    have marked: "engine_inv (set_phase_dataset d s)"
    proof (cases "current_phase s")
      case General
      with Inr have m: "mark_in_dataset (cq_tier cq) (cq_question cq) (general_questions s) = Inr d"
        by (simp add: phase_dataset_def)
      have "engine_inv (s\<lparr>general_questions := d\<rparr>)"
        using assms mark_in_dataset_keys[OF m] mark_in_dataset_status[OF m]
        by (intro engine_inv_general) auto
      with General show ?thesis by (simp add: set_phase_dataset_def)
    next
      case Category
      with assms show ?thesis by (simp add: set_phase_dataset_def engine_inv_def)
    qed
    define s1 where "s1 = (if truthy (cq_field cq)
              then snd (update_profile_structure (cq_field cq) answer (set_phase_dataset d s))
              else set_phase_dataset d s)"
    have "engine_inv s1"
    proof (cases "truthy (cq_field cq)")
      case True
      obtain r t where u: "update_profile_structure (cq_field cq) answer (set_phase_dataset d s)
          = (r, t)"
        by (cases "update_profile_structure (cq_field cq) answer (set_phase_dataset d s)")
      from update_profile_structure_frame[OF u] marked have "engine_inv t"
        by (simp add: engine_inv_def)
      with True u show ?thesis by (simp add: s1_def)
    next
      case False
      with marked show ?thesis by (simp add: s1_def)
    qed
    then have "engine_inv (snd (advance_to_next s1))" by (rule advance_to_next_inv)
    then show ?thesis
      unfolding submit_answer_step[OF cq Inr] s1_def[symmetric]
      by (cases "advance_to_next s1") (auto split: option.splits)
  qed
qed

lemma run_answers_inv: "engine_inv s \<Longrightarrow> engine_inv (run_answers s answers)"
  unfolding run_answers_def
  by (induction answers arbitrary: s) (simp_all add: submit_answer_inv)

section \<open>The invariant holds of every loaded engine\<close>

lemma sort_keys_of_snd: "sort_keys_of py_int ks = Some ps \<Longrightarrow> map snd ps = ks"
  by (induction ks arbitrary: ps) (auto split: option.splits)

lemma extract_tier_keys_props:
  assumes "extract_tier_keys py_int gq = Inr ks" "distinct (map fst gq)"
  shows "distinct ks \<and> set ks \<subseteq> set (map fst gq) \<and> [] \<notin> set ks"
proof (cases "gq = []")
  case True
  with assms show ?thesis by (simp add: extract_tier_keys_def)
next
  case False
  with assms obtain ps where
    ps: "sort_keys_of py_int (filter (\<lambda>k. take 4 k = ''tier'') (map fst gq)) = Some ps"
    and ks: "ks = map snd (sort_key fst ps)"
    by (auto simp: extract_tier_keys_def split: option.splits)
  from sort_keys_of_snd[OF ps]
  have snd_ps: "map snd ps = filter (\<lambda>k. take 4 k = ''tier'') (map fst gq)" .
  with assms(2) have d: "distinct (map snd ps)" by simp
  then have "distinct (map snd (sort_key fst ps))"
    by (simp add: distinct_map)
  moreover have "set (map snd (sort_key fst ps)) = set (map snd ps)" by simp
  moreover have "[] \<notin> set (map snd ps)" unfolding snd_ps by auto
  ultimately show ?thesis unfolding ks using snd_ps by auto
qed

lemma pick_up_from_inv:
  assumes "pick_up_from i ks s = Inr s'" "tier_keys s = pre @ ks" "length pre = i"
    "distinct (tier_keys s)" "[] \<notin> set (tier_keys s)"
    "set (tier_keys s) \<subseteq> set (map fst (general_questions s))"
    "list_all (\<lambda>k. tier_status (general_questions s) k = Inr (JStr ''completed'')) pre"
  shows "engine_inv s'"
  using assms
proof (induction ks arbitrary: i pre)
  case Nil
  then show ?case by (auto simp: engine_inv_def)
next
  case (Cons k ks)
  from Cons.prems(1) obtain status where
    status: "tier_status (general_questions s) k = Inr status"
    by (auto split: sum.splits)
  show ?case
  proof (cases "status = JStr ''completed''")
    case True
    with status Cons.prems(1) have rec: "pick_up_from (Suc i) ks s = Inr s'" by simp
    show ?thesis
      using Cons.prems True status
      by (intro Cons.IH[OF rec, of "pre @ [k]"]) auto
  next
    case False
    have pre: "take i (tier_keys s) = pre" using Cons.prems by simp
    show ?thesis
    proof (cases "status = JStr ''in_process''")
      case True
      with False status Cons.prems(1) have "s' = s\<lparr>current_tier_idx := i\<rparr>" by simp
      with Cons.prems pre show ?thesis by (simp add: engine_inv_def)
    next
      case nip: False
      with False status Cons.prems(1) obtain g where
        g: "set_tier_status k ''in_process'' (general_questions s) = Inr g"
        and s': "s' = s\<lparr>current_tier_idx := i, general_questions := g\<rparr>"
        by (auto split: sum.splits)
      have "tier_status g k' = Inr (JStr ''completed'')" if "k' \<in> set pre" for k'
      proof -
        from that Cons.prems(7) have c: "tier_status (general_questions s) k' = Inr (JStr ''completed'')"
          by (simp add: list_all_iff)
        with status False have "k' \<noteq> k" by auto
        with tier_status_set_other[OF g] c show ?thesis by simp
      qed
      with Cons.prems pre set_tier_status_keys[OF g] show ?thesis
        by (simp add: engine_inv_def s' list_all_iff)
    qed
  qed
qed

lemma load_data_inv:
  assumes "load_data py_int g c p = Inr s" "distinct (map fst (doc_or_empty g))"
  shows "engine_inv s"
proof -
  from assms(1) obtain gq cq ps ks where
    pu: "pick_up_from 0 ks \<lparr>current_tier_idx = 0, current_phase = General, current_q_idx = 0,
        tier_keys = ks, general_questions = gq, category_questions = cq,
        profile_structure = ps\<rparr> = Inr s"
    and lt: "load_try py_int g c p = Inr (gq, cq, ps, ks) \<or>
     (gq = [] \<and> cq = [] \<and> ps = [] \<and> ks = [] \<and> (\<exists>e. load_try py_int g c p = Inl e))"
    by (rule load_data_pick_up)
  have "distinct ks \<and> set ks \<subseteq> set (map fst gq) \<and> [] \<notin> set ks"
  proof (cases "ks = []")
    case True
    then show ?thesis by simp
  next
    case False
    with lt have e: "extract_tier_keys py_int gq = Inr ks" and "gq = doc_or_empty g"
      by (auto simp: load_try_def split: if_splits sum.splits)
    with assms(2) have "distinct (map fst gq)" by simp
    with e show ?thesis by (rule extract_tier_keys_props)
  qed
  then show ?thesis
    by (intro pick_up_from_inv[OF pu, of "[]"]) auto
qed

section \<open>Field paths and the profile write\<close>




lemma path_of_mappings_fresh: "ks \<noteq> [] \<Longrightarrow> path_of_mappings ks (JDict [])"
  by (cases ks) auto

text \<open>Along a path whose existing nodes are all mappings the write never raises, and the
  node reached by the path afterwards is a mapping whose \<^verbatim>\<open>value\<close> is the answer.\<close>

lemma write_path_writes:
  "path_of_mappings ks v \<Longrightarrow> ks \<noteq> [] \<Longrightarrow>
   \<exists>d leaf. write_path ks answer v = Inr (JDict d) \<and>
     lookup_path ks (JDict d) = Some (JDict leaf) \<and> map_of leaf ''value'' = Some answer"
proof (induction ks answer v rule: write_path.induct)
  case (1 answer current)
  then show ?case by simp
next
  case (2 final_key answer current)
  then obtain d where d: "current = JDict d" by (cases current) auto
  show ?case
  proof (cases "map_of d final_key")
    case None
    with d show ?thesis by (simp add: update_conv')
  next
    case (Some c)
    with 2 d obtain leaf where "c = JDict leaf" by (cases c) auto
    with Some d show ?thesis by (simp add: update_conv')
  qed
next
  case (3 key k2 rest answer current)
  then obtain d where d: "current = JDict d" by (cases current) auto
  have "path_of_mappings (k2 # rest) (dict_get_or d key (JDict []))"
    using 3(2) d by (auto simp: dict_get_or_def split: option.splits)
  from 3(1)[OF d this] obtain d' leaf where
    w: "write_path (k2 # rest) answer (dict_get_or d key (JDict [])) = Inr (JDict d')"
    and l: "lookup_path (k2 # rest) (JDict d') = Some (JDict leaf)"
    and v: "map_of leaf ''value'' = Some answer"
    by auto
  from d w l v show ?case by (simp add: update_conv')
qed

text \<open>Inside a mapping that the walk has just created nothing can raise: an exception of
  the walk always comes before the first creation, so it leaves the profile untouched.\<close>

lemma write_path_created:
  "ks \<noteq> [] \<Longrightarrow> \<exists>d. write_path ks answer (JDict []) = Inr (JDict d)"
  using write_path_writes[OF path_of_mappings_fresh, of ks answer] by blast




section \<open>Marking the question\<close>

lemma tier_questions_update_status [simp]:
  "map_of d k = Some (JDict t) \<Longrightarrow>
   tier_questions (AList.update k (JDict (AList.update ''status'' st t)) d) k' = tier_questions d k'"
  by (auto simp: tier_questions_def update_conv' split: option.splits json.splits)







section \<open>What advancing leaves alone\<close>






section \<open>Documents of the expected shape raise nothing\<close>












section \<open>The marking seen from outside\<close>


section \<open>The pending view\<close>


declare py_eq.simps(8) [simp del]





section \<open>Completing a tier and moving on\<close>



section \<open>The properties of the specification\<close>

text \<open>
  C1. The example scenario, run on the code. The freshly loaded engine is at
  (tier1, general, 0), and the first answer is written to \<open>name\<close> and marks the first
  question answered, as stated. The position after that first answer is not
  (tier1, general, 1): \<^verbatim>\<open>advance_to_next\<close> filters the pending list again, finds one
  question left, compares \<open>0 + 1 < 1\<close>, and completes tier1 with the question on \<open>age\<close>
  still pending. The engine is then at (tier2, general, 0) and asks for the hobby.
\<close>

theorem example_scenario_skips_second_question:
  "load_data decimal_int (Doc_found scenario_general) (Doc_found scenario_category) (Doc_found [])
     = Inr scenario_loaded \<and>
   position scenario_loaded = (0, General, 0) \<and>
   fst (submit_answer (JStr ''Alice'') scenario_loaded) = Inr True \<and>
   lookup_path [''name'', ''value''] (JDict (profile_structure scenario_after_alice))
     = Some (JStr ''Alice'') \<and>
   tier_questions (general_questions scenario_after_alice) ''tier1'' =
     [mk_question ''What is your name?'' ''name'' ''answered'',
      mk_question ''How old are you?'' ''age'' ''pending''] \<and>
   position scenario_after_alice = (1, General, 0) \<and>
   tier_status (general_questions scenario_after_alice) ''tier1'' = Inr (JStr ''completed'') \<and>
   map_option cq_field (projr (get_current_question scenario_after_alice)) = Some (JStr ''hobby'')"
  by code_simp






text \<open>
  C5. On every engine built by \<^verbatim>\<open>load_data\<close> from a general document (a Python dict: its
  keys are distinct) and then driven by any sequence of \<^verbatim>\<open>submit_answer\<close> calls, whatever
  each call returned or raised: when the current tier is the one at index \<open>t + 1\<close> of
  \<^verbatim>\<open>tier_keys\<close>, the tier at index \<open>t\<close> has status \<^verbatim>\<open>completed\<close> in the general set.
\<close>

theorem no_skip_without_completion:
  assumes "distinct (map fst (doc_or_empty gen_doc))"
    and "load_data py_int gen_doc cat_doc profile_doc = Inr s0"
    and "s = run_answers s0 answers"
    and "get_current_tier_key s = Some (tier_keys s ! Suc t)"
    and "current_tier_idx s = Suc t"
  shows "tier_status (general_questions s) (tier_keys s ! t) = Inr (JStr ''completed'')"
proof -
  have "engine_inv s0" using assms(2,1) by (rule load_data_inv)
  then have inv: "engine_inv s" unfolding assms(3) by (rule run_answers_inv)
  from assms(4) have lt: "Suc t < length (tier_keys s)"
    by (auto simp: get_current_tier_key_def assms(5) split: if_splits)
  from inv assms(5) have "list_all (\<lambda>k. tier_status (general_questions s) k
      = Inr (JStr ''completed'')) (take (Suc t) (tier_keys s))"
    by (simp add: engine_inv_def)
  moreover have "tier_keys s ! t \<in> set (take (Suc t) (tier_keys s))"
    using lt by (auto simp: in_set_conv_nth intro!: exI[of _ t])
  ultimately show ?thesis by (simp add: list_all_iff)
qed

theorem no_skip_without_completion_witness:
  "distinct (map fst (doc_or_empty (Doc_found scenario_general))) \<and>
   get_current_tier_key (run_answers scenario_loaded [JStr ''Alice'']) = Some ''tier2'' \<and>
   current_tier_idx (run_answers scenario_loaded [JStr ''Alice'']) = Suc 0 \<and>
   tier_status (general_questions (run_answers scenario_loaded [JStr ''Alice'']))
     (tier_keys (run_answers scenario_loaded [JStr ''Alice'']) ! 0) = Inr (JStr ''completed'')"
proof -
  have d: "distinct (map fst (doc_or_empty (Doc_found scenario_general)))" by code_simp
  have k: "get_current_tier_key (run_answers scenario_loaded [JStr ''Alice''])
      = Some (tier_keys (run_answers scenario_loaded [JStr ''Alice'']) ! Suc 0)"
    by code_simp
  have k2: "get_current_tier_key (run_answers scenario_loaded [JStr ''Alice'']) = Some ''tier2''"
    by code_simp
  have i: "current_tier_idx (run_answers scenario_loaded [JStr ''Alice'']) = Suc 0"
    by code_simp
  from no_skip_without_completion[OF d scenario_load refl k i] d k2 i show ?thesis by simp
qed



text \<open>
  C7. When there is no current tier, or \<^verbatim>\<open>get_current_question\<close> returns \<^verbatim>\<open>None\<close>,
  \<^verbatim>\<open>submit_answer\<close> returns \<^verbatim>\<open>False\<close> without raising and the engine (both question
  sets, the profile structure and the position) is unchanged.
\<close>

theorem submit_answer_without_question:
  assumes "no_key (get_current_tier_key s) \<or> get_current_question s = Inr None"
  shows "submit_answer answer s = (Inr False, s)"
  using assms by (auto simp: submit_answer_def)

theorem submit_answer_without_question_witness:
  "no_key (get_current_tier_key finished_engine) \<and>
   get_current_question finished_engine = Inr None \<and>
   submit_answer (JStr ''again'') finished_engine = (Inr False, finished_engine)"
proof -
  have h: "no_key (get_current_tier_key finished_engine)" by code_simp
  have q: "get_current_question finished_engine = Inr None" by code_simp
  from h have "no_key (get_current_tier_key finished_engine) \<or>
      get_current_question finished_engine = Inr None" ..
  from submit_answer_without_question[OF this, of "JStr ''again''"] h q show ?thesis by simp
qed

text \<open>
  C8. When the loaded general set is empty (the document is absent or empty, or the load
  failed and fell back to empty structures), \<^verbatim>\<open>tier_keys\<close> is empty, the tier index is
  zero, which is the tier count, \<^verbatim>\<open>is_complete\<close> holds and there is no current question.
  A store failure, an absent document and an empty document all load without raising.
\<close>

theorem empty_general_set_is_complete:
  "(load_data py_int g c p = Inr s \<and> general_questions s = [] \<longrightarrow>
      tier_keys s = [] \<and> current_tier_idx s = 0 \<and>
      current_tier_idx s = length (tier_keys s) \<and> is_complete s \<and>
      get_current_question s = Inr None) \<and>
   (g = Fetch_failed \<or> g = Doc_absent \<or> g = Doc_found [] \<longrightarrow>
      (\<exists>s. load_data py_int g c p = Inr s \<and> general_questions s = []))"
proof (rule conjI; rule impI)
  assume a: "load_data py_int g c p = Inr s \<and> general_questions s = []"
  then obtain gq cq ps ks where
    pu: "pick_up_from 0 ks \<lparr>current_tier_idx = 0, current_phase = General, current_q_idx = 0,
        tier_keys = ks, general_questions = gq, category_questions = cq,
        profile_structure = ps\<rparr> = Inr s"
    and lt: "load_try py_int g c p = Inr (gq, cq, ps, ks) \<or>
     (gq = [] \<and> cq = [] \<and> ps = [] \<and> ks = [] \<and> (\<exists>e. load_try py_int g c p = Inl e))"
    by (auto elim: load_data_pick_up)
  from pick_up_from_frame[OF pu] a have "gq = []" and tk: "tier_keys s = ks" by auto
  with lt have "ks = []" by (auto dest: load_try_empty)
  with pu tk have "tier_keys s = []" "current_tier_idx s = 0" by auto
  then show "tier_keys s = [] \<and> current_tier_idx s = 0 \<and>
      current_tier_idx s = length (tier_keys s) \<and> is_complete s \<and>
      get_current_question s = Inr None"
    by (simp add: is_complete_def get_current_question_def get_current_tier_key_def)
next
  assume "g = Fetch_failed \<or> g = Doc_absent \<or> g = Doc_found []"
  then show "\<exists>s. load_data py_int g c p = Inr s \<and> general_questions s = []"
    by (auto simp: load_data_def load_try_def extract_tier_keys_def pick_up_where_left_off_def
        split: sum.splits)
qed

theorem empty_general_set_is_complete_witness:
  "\<exists>s. load_data decimal_int Fetch_failed (Doc_found scenario_category) Doc_absent = Inr s \<and>
       general_questions s = [] \<and> tier_keys s = [] \<and> current_tier_idx s = 0 \<and>
       is_complete s \<and> get_current_question s = Inr None"
  using empty_general_set_is_complete[of decimal_int Fetch_failed "Doc_found scenario_category"
      Doc_absent]
  by blast





end
